theory Spec2Isabelle
  imports Main
begin

section \<open>JavaScript strings and values\<close>

text \<open>
  A JavaScript string is a sequence of UTF-16 code units. The model is a \<open>string\<close>
  (a list of \<open>char\<close>), each \<open>char\<close> standing for one code unit below 256; code units
  from 256 on are outside the model. A JavaScript number that holds a line number is a
  \<open>nat\<close>. JavaScript numbers are doubles: the integers up to \<open>2^53\<close> are exact, above
  \<open>2^53\<close> \<open>parseInt\<close> rounds and \<open>++\<close> no longer advances. So the model is the program
  as long as every value of the counter stays below \<open>2^53\<close>, and a statement about the
  values of line numbers carries that bound (\<open>exactIntegers\<close> below).
\<close>

definition code :: "char \<Rightarrow> nat" where
  "code c = of_char c"

text \<open>The white space of \<open>String.prototype.trim\<close> and of the class \<open>\s\<close>, among the
  code units below 256: TAB, LF, VT, FF, CR, SP and NBSP.\<close>

definition isSpace :: "char \<Rightarrow> bool" where
  "isSpace c = (let n = code c in (9 \<le> n \<and> n \<le> 13) \<or> n = 32 \<or> n = 160)"

text \<open>The class \<open>\d\<close>: the ten ASCII digits.\<close>

definition isDigit :: "char \<Rightarrow> bool" where
  "isDigit c = (let n = code c in 48 \<le> n \<and> n \<le> 57)"

text \<open>The class \<open>\w\<close>: ASCII letters, digits and the underscore.\<close>

definition isWord :: "char \<Rightarrow> bool" where
  "isWord c = (let n = code c in
     (48 \<le> n \<and> n \<le> 57) \<or> (65 \<le> n \<and> n \<le> 90) \<or> n = 95 \<or> (97 \<le> n \<and> n \<le> 122))"

text \<open>The line terminators that \<open>.\<close> refuses, among the code units below 256.\<close>

definition isLineTerminator :: "char \<Rightarrow> bool" where
  "isLineTerminator c = (let n = code c in n = 10 \<or> n = 13)"

text \<open>\<open>s.startsWith(p)\<close>\<close>

fun startsWith :: "string \<Rightarrow> string \<Rightarrow> bool" where
  "startsWith [] s = True"
| "startsWith (p # ps) [] = False"
| "startsWith (p # ps) (c # cs) = (p = c \<and> startsWith ps cs)"

text \<open>\<open>s.split(sep)\<close> for a separator of one code unit: never an empty array.\<close>

fun split :: "char \<Rightarrow> string \<Rightarrow> string list" where
  "split sep [] = [[]]"
| "split sep (c # cs) =
     (if c = sep then [] # split sep cs
      else (case split sep cs of [] \<Rightarrow> [[c]] | l # ls \<Rightarrow> (c # l) # ls))"

text \<open>\<open>s.trim()\<close>\<close>

definition trimStart :: "string \<Rightarrow> string" where
  "trimStart s = dropWhile isSpace s"

definition trim :: "string \<Rightarrow> string" where
  "trim s = rev (dropWhile isSpace (rev (dropWhile isSpace s)))"

text \<open>\<open>s.replace(p, r)\<close> with a string pattern: the first occurrence only. The
  replacement strings used here hold no \<open>$\<close>.\<close>

fun replace :: "string \<Rightarrow> string \<Rightarrow> string \<Rightarrow> string" where
  "replace p r [] = (if p = [] then r else [])"
| "replace p r (c # cs) =
     (if startsWith p (c # cs) then r @ drop (length p) (c # cs) else c # replace p r cs)"

text \<open>\<open>parseInt(ds, 10)\<close> on a string of digits: the number the digits stand for, which
  is what the program gets when that number is at most \<open>2^53\<close>.\<close>

definition parseInt :: "string \<Rightarrow> nat" where
  "parseInt ds = foldl (\<lambda>a c. 10 * a + (code c - 48)) 0 ds"

text \<open>The line feed, and the text whose lines are given (the inverse of splitting at
  line feeds), to write patches down.\<close>

definition LF :: char where
  "LF = CHR 0x0A"

fun joinLines :: "string list \<Rightarrow> string" where
  "joinLines [] = []"
| "joinLines [l] = l"
| "joinLines (l # ls) = l @ LF # joinLines ls"

section \<open>The hunk header\<close>

text \<open>
  \<^verbatim>\<open>line.match(/^@@ -\d+(?:,\d+)? \+(\d+)(?:,\d+)? @@/)\<close>
  Every part of the pattern is forced by the next character (a digit run ends at a
  non-digit, the optional count starts with a comma followed by a digit), so the match is
  read off from left to right. The result is the capture group, the digits of the new
  start, already through \<open>parseInt\<close>. That \<open>hunkMatch\<close> accepts the lines the pattern
  matches is proved below (\<open>hunkMatch_regex\<close>).
\<close>

definition stripPrefix :: "string \<Rightarrow> string \<Rightarrow> string option" where
  "stripPrefix p s = (if startsWith p s then Some (drop (length p) s) else None)"

definition digits1 :: "string \<Rightarrow> (string \<times> string) option" where
  "digits1 s = (let ds = takeWhile isDigit s in
     if ds = [] then None else Some (ds, dropWhile isDigit s))"

definition optCount :: "string \<Rightarrow> string" where
  "optCount s = (case s of
       [] \<Rightarrow> s
     | c # t \<Rightarrow> if c = CHR '','' then (case digits1 t of None \<Rightarrow> s | Some (ds, r) \<Rightarrow> r) else s)"

definition hunkMatch :: "string \<Rightarrow> nat option" where
  "hunkMatch line =
     (case stripPrefix ''@@ -'' line of None \<Rightarrow> None | Some r1 \<Rightarrow>
      (case digits1 r1 of None \<Rightarrow> None | Some (old, r2) \<Rightarrow>
       (case stripPrefix '' +'' (optCount r2) of None \<Rightarrow> None | Some r3 \<Rightarrow>
        (case digits1 r3 of None \<Rightarrow> None | Some (new, r4) \<Rightarrow>
          if startsWith '' @@'' (optCount r4) then Some (parseInt new) else None))))"

section \<open>The line trackers\<close>

text \<open>An element of the arrays the trackers build and the matchers read. A property an
  object does not have reads as \<open>undefined\<close>: \<open>None\<close>.\<close>

record lineObj =
  lineNumber :: nat
  content :: "string option"
  context' :: "string option"

text \<open>\<open>getAddedLines\<close>: the loop over the lines, with the counter \<open>newLineNumber\<close> and
  the array \<open>addedLines\<close>. \<open>newLineNumber++\<close> is \<open>+ 1\<close>, which is what the program does
  while the counter is below \<open>2^53\<close>.\<close>

fun addedLoop :: "string list \<Rightarrow> nat \<Rightarrow> lineObj list \<Rightarrow> lineObj list" where
  "addedLoop [] newLineNumber addedLines = addedLines"
| "addedLoop (line # lines) newLineNumber addedLines =
     (case hunkMatch line of
        Some k \<Rightarrow> addedLoop lines k addedLines
      | None \<Rightarrow>
          if startsWith ''+'' line \<and> \<not> startsWith ''+++'' line
          then addedLoop lines (newLineNumber + 1)
                 (addedLines @ [\<lparr>lineNumber = newLineNumber, content = Some (drop 1 line),
                                 context' = None\<rparr>])
          else if startsWith '' '' line then addedLoop lines (newLineNumber + 1) addedLines
          else addedLoop lines newLineNumber addedLines)"

definition getAddedLines :: "string \<Rightarrow> lineObj list" where
  "getAddedLines patch = addedLoop (split LF patch) 0 []"

text \<open>\<open>getDeletedLines\<close>: the same loop for the lines that start with \<open>-\<close>.\<close>

fun deletedLoop :: "string list \<Rightarrow> nat \<Rightarrow> lineObj list \<Rightarrow> lineObj list" where
  "deletedLoop [] newLineNumber addedLines = addedLines"
| "deletedLoop (line # lines) newLineNumber addedLines =
     (case hunkMatch line of
        Some k \<Rightarrow> deletedLoop lines k addedLines
      | None \<Rightarrow>
          if startsWith ''-'' line \<and> \<not> startsWith ''---'' line
          then deletedLoop lines (newLineNumber + 1)
                 (addedLines @ [\<lparr>lineNumber = newLineNumber, content = Some (drop 1 line),
                                 context' = None\<rparr>])
          else if startsWith '' '' line then deletedLoop lines (newLineNumber + 1) addedLines
          else deletedLoop lines newLineNumber addedLines)"

definition getDeletedLines :: "string \<Rightarrow> lineObj list" where
  "getDeletedLines patch = deletedLoop (split LF patch) 0 []"

section \<open>Regular expressions\<close>

text \<open>
  The patterns of the source use no flag, no back reference and no look-around, and the
  code only asks whether a pattern matches. So a pattern is its regular language, with the
  anchors \<open>^\<close> and \<open>$\<close> (start and end of the whole input, as no \<open>m\<close> flag is set) kept
  beside it. Matching is by derivatives.
\<close>

datatype cclass =
    Lit char          \<comment> \<open>one code unit\<close>
  | Space             \<comment> \<open>\<open>\s\<close>\<close>
  | Word              \<comment> \<open>\<open>\w\<close>\<close>
  | Digit             \<comment> \<open>\<open>\d\<close>\<close>
  | AnyChar           \<comment> \<open>\<open>.\<close>: anything but a line terminator\<close>
  | NoneOf string     \<comment> \<open>\<open>[^...]\<close> over single code units\<close>
  | Class "cclass list"  \<comment> \<open>\<open>[...]\<close>\<close>

fun inClass :: "cclass \<Rightarrow> char \<Rightarrow> bool" where
  "inClass (Lit a) c = (a = c)"
| "inClass Space c = isSpace c"
| "inClass Word c = isWord c"
| "inClass Digit c = isDigit c"
| "inClass AnyChar c = (\<not> isLineTerminator c)"
| "inClass (NoneOf cs) c = (\<not> List.member cs c)"
| "inClass (Class ks) c = list_ex (\<lambda>k. inClass k c) ks"

datatype rx =
    Never
  | Empty
  | One cclass
  | Then rx rx
  | Or rx rx
  | Many rx           \<comment> \<open>\<open>r*\<close>\<close>

definition Opt :: "rx \<Rightarrow> rx" where  \<comment> \<open>\<open>r?\<close>\<close>
  "Opt r = Or r Empty"

definition Plus :: "rx \<Rightarrow> rx" where  \<comment> \<open>\<open>r+\<close>\<close>
  "Plus r = Then r (Many r)"

definition Seqs :: "rx list \<Rightarrow> rx" where
  "Seqs rs = foldr Then rs Empty"

definition Lits :: "string \<Rightarrow> rx" where  \<comment> \<open>a literal text\<close>
  "Lits s = foldr (\<lambda>c r. Then (One (Lit c)) r) s Empty"

definition Alts :: "rx list \<Rightarrow> rx" where
  "Alts rs = foldr Or rs Never"

fun nullable :: "rx \<Rightarrow> bool" where
  "nullable Never = False"
| "nullable Empty = True"
| "nullable (One k) = False"
| "nullable (Then r s) = (nullable r \<and> nullable s)"
| "nullable (Or r s) = (nullable r \<or> nullable s)"
| "nullable (Many r) = True"

fun deriv :: "char \<Rightarrow> rx \<Rightarrow> rx" where
  "deriv c Never = Never"
| "deriv c Empty = Never"
| "deriv c (One k) = (if inClass k c then Empty else Never)"
| "deriv c (Then r s) =
     (if nullable r then Or (Then (deriv c r) s) (deriv c s) else Then (deriv c r) s)"
| "deriv c (Or r s) = Or (deriv c r) (deriv c s)"
| "deriv c (Many r) = Then (deriv c r) (Many r)"

text \<open>Some prefix of the text is in the language; the whole text is.\<close>

fun matchesPrefix :: "rx \<Rightarrow> string \<Rightarrow> bool" where
  "matchesPrefix r [] = nullable r"
| "matchesPrefix r (c # cs) = (nullable r \<or> matchesPrefix (deriv c r) cs)"

fun matchesAll :: "rx \<Rightarrow> string \<Rightarrow> bool" where
  "matchesAll r [] = nullable r"
| "matchesAll r (c # cs) = matchesAll (deriv c r) cs"

record regex =
  anchoredStart :: bool   \<comment> \<open>the pattern starts with \<open>^\<close>\<close>
  body :: rx
  anchoredEnd :: bool     \<comment> \<open>the pattern ends with \<open>$\<close>\<close>

definition matchAt :: "regex \<Rightarrow> string \<Rightarrow> bool" where
  "matchAt re s = (if anchoredEnd re then matchesAll (body re) s else matchesPrefix (body re) s)"

fun searchFrom :: "regex \<Rightarrow> string \<Rightarrow> bool" where
  "searchFrom re [] = matchAt re []"
| "searchFrom re (c # cs) = (matchAt re (c # cs) \<or> searchFrom re cs)"

text \<open>\<open>re.test(s)\<close>, and the truth value of \<open>s.match(re)\<close>.\<close>

definition regexTest :: "regex \<Rightarrow> string \<Rightarrow> bool" where
  "regexTest re s = (if anchoredStart re then matchAt re s else searchFrom re s)"

text \<open>The denotation of a pattern, against which the matcher is proved below.\<close>

fun denot :: "rx \<Rightarrow> string set" where
  "denot Never = {}"
| "denot Empty = {[]}"
| "denot (One k) = {[c] | c. inClass k c}"
| "denot (Then r s) = {u @ v | u v. u \<in> denot r \<and> v \<in> denot s}"
| "denot (Or r s) = denot r \<union> denot s"
| "denot (Many r) = {concat ws | ws. set ws \<subseteq> denot r}"

text \<open>The pattern of the hunk header, \<^verbatim>\<open>/^@@ -\d+(?:,\d+)? \+(\d+)(?:,\d+)? @@/\<close>, for
  the comparison with \<open>hunkMatch\<close> below.\<close>

definition dg :: rx where
  "dg = One Digit"

definition hunkHeader :: regex where
  "hunkHeader = \<lparr>anchoredStart = True,
     body = Seqs [Lits ''@@ -'', Plus dg, Opt (Seqs [Lits '','', Plus dg]),
       Lits '' +'', Plus dg, Opt (Seqs [Lits '','', Plus dg]), Lits '' @@''],
     anchoredEnd = False\<rparr>"

section \<open>Values, objects and errors\<close>

datatype jsval = JUndefined | JNull | JBool bool | JStr string

text \<open>\<open>ToString\<close>, as \<open>RegExp.prototype.test\<close>, a property key and a template literal
  apply it.\<close>

fun toStr :: "jsval \<Rightarrow> string" where
  "toStr JUndefined = ''undefined''"
| "toStr JNull = ''null''"
| "toStr (JBool b) = (if b then ''true'' else ''false'')"
| "toStr (JStr s) = s"

text \<open>Reading a property of a line object.\<close>

fun readProp :: "string option \<Rightarrow> jsval" where
  "readProp None = JUndefined"
| "readProp (Some s) = JStr s"

datatype error = TypeError | ReferenceError

datatype logEntry = Info string | Warn string

text \<open>
  \<open>table[key]\<close> on an object literal: an own property, a property inherited from
  \<open>Object.prototype\<close> (a function, or the prototype itself for \<open>__proto__\<close>: truthy, with
  no enumerable property and no \<open>test\<close> method), or \<open>undefined\<close>.
\<close>

datatype 'a lookup = Own 'a | Inherited | Missing

definition objectPrototypeKeys :: "string list" where
  "objectPrototypeKeys =
     [''constructor'', ''__defineGetter__'', ''__defineSetter__'', ''hasOwnProperty'',
      ''__lookupGetter__'', ''__lookupSetter__'', ''isPrototypeOf'', ''propertyIsEnumerable'',
      ''toString'', ''valueOf'', ''__proto__'', ''toLocaleString'']"

definition getProp :: "(string \<times> 'a) list \<Rightarrow> string \<Rightarrow> 'a lookup" where
  "getProp table k =
     (case map_of table k of
        Some v \<Rightarrow> Own v
      | None \<Rightarrow> if List.member objectPrototypeKeys k then Inherited else Missing)"

section \<open>The language detector\<close>

text \<open>\<open>array.pop()\<close>, as a value.\<close>

definition pop :: "string list \<Rightarrow> jsval" where
  "pop xs = (if xs = [] then JUndefined else JStr (last xs))"

fun detectLoop :: "string list \<Rightarrow> jsval" where
  "detectLoop [] = JNull"
| "detectLoop (line # rest) =
     (let trimmed = trim line in
      if startsWith ''+++'' trimmed
      then pop (split (CHR ''.'') (trim (replace ''b/'' [] (replace ''+++'' [] trimmed))))
      else detectLoop rest)"

definition detectLanguage :: "string \<Rightarrow> jsval" where
  "detectLanguage patch = detectLoop (split LF patch)"

section \<open>The test-file classifier\<close>

definition unanchored :: "rx \<Rightarrow> regex" where
  "unanchored r = \<lparr>anchoredStart = False, body = r, anchoredEnd = False\<rparr>"

definition atStart :: "rx \<Rightarrow> regex" where
  "atStart r = \<lparr>anchoredStart = True, body = r, anchoredEnd = False\<rparr>"

definition atEnd :: "rx \<Rightarrow> regex" where
  "atEnd r = \<lparr>anchoredStart = False, body = r, anchoredEnd = True\<rparr>"

text \<open>The array \<open>testPatterns\<close>, in its order:
  \<^verbatim>\<open>/\.test\./\<close>, \<^verbatim>\<open>/\.spec\./\<close>, \<^verbatim>\<open>/__tests__\//\<close>, \<^verbatim>\<open>/_test\./\<close>, \<^verbatim>\<open>/\.test$/\<close>,
  \<^verbatim>\<open>/\.spec$/\<close>, \<^verbatim>\<open>/test_.*\.py$/\<close>, \<^verbatim>\<open>/.*_test\.py$/\<close>.\<close>

definition testPatterns :: "regex list" where
  "testPatterns =
     [unanchored (Lits ''.test.''),
      unanchored (Lits ''.spec.''),
      unanchored (Lits ''__tests__/''),
      unanchored (Lits ''_test.''),
      atEnd (Lits ''.test''),
      atEnd (Lits ''.spec''),
      atEnd (Seqs [Lits ''test_'', Many (One AnyChar), Lits ''.py'']),
      atEnd (Seqs [Many (One AnyChar), Lits ''_test.py''])]"

text \<open>\<open>testPatterns.some((pattern) => pattern.test(filename))\<close>\<close>

definition isTestFile :: "jsval \<Rightarrow> bool" where
  "isTestFile filename = list_ex (\<lambda>pattern. regexTest pattern (toStr filename)) testPatterns"

section \<open>The function matcher\<close>

definition sp :: rx where
  "sp = One Space"

definition wd :: rx where
  "wd = One Word"

text \<open>The table \<open>patterns\<close> of \<open>containsNewFunctions\<close>, each language with its pattern
  types in the order of declaration, which is the order \<open>for ... in\<close> visits them.\<close>

definition jsFunction :: regex where
  \<comment> \<open>\<^verbatim>\<open>/^\s*(export\s+)?(async\s+)?function\s+\w+\s*\(/\<close>\<close>
  "jsFunction = atStart (Seqs [Many sp, Opt (Seqs [Lits ''export'', Plus sp]),
     Opt (Seqs [Lits ''async'', Plus sp]), Lits ''function'', Plus sp, Plus wd, Many sp,
     Lits ''(''])"

definition declKeyword :: rx where
  \<comment> \<open>\<^verbatim>\<open>(const|let|var)\<close>\<close>
  "declKeyword = Alts [Lits ''const'', Lits ''let'', Lits ''var'']"

definition jsArrow :: regex where
  \<comment> \<open>\<^verbatim>\<open>/^\s*(export\s+)?(const|let|var)\s+\w+\s*=\s*(async\s*)?\([^)]*\)\s*=>/\<close>\<close>
  "jsArrow = atStart (Seqs [Many sp, Opt (Seqs [Lits ''export'', Plus sp]), declKeyword,
     Plus sp, Plus wd, Many sp, Lits ''='', Many sp, Opt (Seqs [Lits ''async'', Many sp]),
     Lits ''('', Many (One (NoneOf '')'')), Lits '')'', Many sp, Lits ''=>''])"

definition jsExpression :: regex where
  \<comment> \<open>\<^verbatim>\<open>/^\s*(export\s+)?(const|let|var)\s+\w+\s*=\s*(async\s+)?function\s*\(/\<close>\<close>
  "jsExpression = atStart (Seqs [Many sp, Opt (Seqs [Lits ''export'', Plus sp]), declKeyword,
     Plus sp, Plus wd, Many sp, Lits ''='', Many sp, Opt (Seqs [Lits ''async'', Plus sp]),
     Lits ''function'', Many sp, Lits ''(''])"

definition jsMethod :: regex where
  \<comment> \<open>\<^verbatim>\<open>/^\s*(async\s+)?(\w+)\s*\([^)]*\)\s*{/\<close>\<close>
  "jsMethod = atStart (Seqs [Many sp, Opt (Seqs [Lits ''async'', Plus sp]), Plus wd, Many sp,
     Lits ''('', Many (One (NoneOf '')'')), Lits '')'', Many sp, Lits ''{''])"

definition pyFunction :: regex where
  \<comment> \<open>\<^verbatim>\<open>/^\s*(async\s+)?def\s+\w+\s*\(/\<close>\<close>
  "pyFunction = atStart (Seqs [Many sp, Opt (Seqs [Lits ''async'', Plus sp]), Lits ''def'',
     Plus sp, Plus wd, Many sp, Lits ''(''])"

definition javaFunction :: regex where
  \<comment> \<open>\<^verbatim>\<open>/^\s*(public|private|protected)?\s*(static)?\s*(final)?\s*[\w<>[\],\s]+\s+\w+\s*\(/\<close>\<close>
  "javaFunction = atStart (Seqs [Many sp,
     Opt (Alts [Lits ''public'', Lits ''private'', Lits ''protected'']), Many sp,
     Opt (Lits ''static''), Many sp, Opt (Lits ''final''), Many sp,
     Plus (One (Class [Word, Lit (CHR ''<''), Lit (CHR ''>''), Lit (CHR ''[''), Lit (CHR '']''),
                       Lit (CHR '',''), Space])),
     Plus sp, Plus wd, Many sp, Lits ''(''])"

definition goFunction :: regex where
  \<comment> \<open>\<^verbatim>\<open>/^\s*func\s+(\(\w+\s+\*?\w+\)\s*)?\w+\s*\(/\<close>\<close>
  "goFunction = atStart (Seqs [Many sp, Lits ''func'', Plus sp,
     Opt (Seqs [Lits ''('', Plus wd, Plus sp, Opt (Lits ''*''), Plus wd, Lits '')'', Many sp]),
     Plus wd, Many sp, Lits ''(''])"

definition patterns :: "(string \<times> (string \<times> regex) list) list" where
  "patterns =
     [(''js'', [(''function'', jsFunction), (''arrow'', jsArrow),
                (''expression'', jsExpression), (''method'', jsMethod)]),
      (''py'', [(''function'', pyFunction)]),
      (''java'', [(''function'', javaFunction)]),
      (''go'', [(''function'', goFunction)])]"

definition commonPatterns :: regex where
  \<comment> \<open>\<^verbatim>\<open>/^\s*(for|while|if|else|switch|catch)\s*\(/\<close>\<close>
  "commonPatterns = atStart (Seqs [Many sp,
     Alts [Lits ''for'', Lits ''while'', Lits ''if'', Lits ''else'', Lits ''switch'',
           Lits ''catch''],
     Many sp, Lits ''(''])"

record funcResults =
  hasNewFunctions :: bool
  newFunctions :: "string list"
  lineNumbers :: "nat list"
  language :: jsval

text \<open>
  The \<open>for ... in\<close> loop over the pattern types of one line. \<open>currentContext.match\<close>
  raises a TypeError when \<open>currentContext\<close> is \<open>undefined\<close>. The state is the pair of
  the arrays \<open>functions\<close> and \<open>results.lineNumbers\<close>; \<open>break\<close> leaves the loop.
\<close>

fun patternLoop ::
  "(string \<times> regex) list \<Rightarrow> lineObj \<Rightarrow> string list \<times> nat list \<Rightarrow> error + string list \<times> nat list"
where
  "patternLoop [] lineObj st = Inr st"
| "patternLoop ((patternType, pat) # rest) lineObj st =
     (case context' lineObj of
        None \<Rightarrow> Inl TypeError
      | Some currentContext \<Rightarrow>
          if regexTest pat currentContext
          then (if regexTest pat currentContext \<and> \<not> regexTest commonPatterns currentContext
                then Inr (fst st @ [trim currentContext], snd st @ [lineNumber lineObj])
                else patternLoop rest lineObj st)
          else patternLoop rest lineObj st)"

text \<open>The callback of \<open>addedLines.forEach\<close>.\<close>

definition lineStep ::
  "(string \<times> regex) list \<Rightarrow> lineObj \<Rightarrow> string list \<times> nat list \<Rightarrow> error + string list \<times> nat list"
where
  "lineStep langPatterns lineObj st =
     (if regexTest commonPatterns (toStr (readProp (context' lineObj))) then Inr st
      else patternLoop langPatterns lineObj st)"

fun forEachLine ::
  "(string \<times> regex) list \<Rightarrow> lineObj list \<Rightarrow> string list \<times> nat list \<Rightarrow> error + string list \<times> nat list"
where
  "forEachLine langPatterns [] st = Inr st"
| "forEachLine langPatterns (lineObj # rest) st =
     (case lineStep langPatterns lineObj st of
        Inl e \<Rightarrow> Inl e
      | Inr st' \<Rightarrow> forEachLine langPatterns rest st')"

definition finish :: "jsval \<Rightarrow> string list \<times> nat list \<Rightarrow> funcResults" where
  "finish lang st = \<lparr>hasNewFunctions = (length (fst st) > 0), newFunctions = fst st,
     lineNumbers = snd st, language = lang\<rparr>"

text \<open>\<open>containsNewFunctions\<close>: what it logs, and what it returns or raises.\<close>

definition containsNewFunctions ::
  "lineObj list \<Rightarrow> jsval \<Rightarrow> logEntry list \<times> (error + funcResults)"
where
  "containsNewFunctions addedLines lang =
     (case getProp patterns (toStr lang) of
        Missing \<Rightarrow>
          ([Warn (''No patterns defined for language: '' @ toStr lang)],
           Inr \<lparr>hasNewFunctions = False, newFunctions = [], lineNumbers = [], language = lang\<rparr>)
      | Inherited \<Rightarrow> ([], map_sum id (finish lang) (forEachLine [] addedLines ([], [])))
      | Own langPatterns \<Rightarrow>
          ([], map_sum id (finish lang) (forEachLine langPatterns addedLines ([], []))))"

section \<open>The import matcher\<close>

text \<open>The table \<open>patterns\<close> of \<open>containsImports\<close>:
  js and ts \<^verbatim>\<open>/import\s+.*from|require\s*\(/\<close>, py \<^verbatim>\<open>/import\s+|from\s+.*import/\<close>,
  java \<^verbatim>\<open>/import\s+/\<close>, go \<^verbatim>\<open>/import\s+\(/\<close>, rust \<^verbatim>\<open>/use\s+/\<close>,
  ruby \<^verbatim>\<open>/require\s+/\<close>.\<close>

definition importFrom :: rx where
  "importFrom = Or (Seqs [Lits ''import'', Plus sp, Many (One AnyChar), Lits ''from''])
                   (Seqs [Lits ''require'', Many sp, Lits ''(''])"

definition importPatterns :: "(string \<times> regex) list" where
  "importPatterns =
     [(''js'', unanchored importFrom),
      (''ts'', unanchored importFrom),
      (''py'', unanchored (Or (Seqs [Lits ''import'', Plus sp])
                              (Seqs [Lits ''from'', Plus sp, Many (One AnyChar), Lits ''import'']))),
      (''java'', unanchored (Seqs [Lits ''import'', Plus sp])),
      (''go'', unanchored (Seqs [Lits ''import'', Plus sp, Lits ''(''])),
      (''rust'', unanchored (Seqs [Lits ''use'', Plus sp])),
      (''ruby'', unanchored (Seqs [Lits ''require'', Plus sp]))]"

text \<open>\<open>containsImports\<close>: \<open>patterns[language].test(line)\<close> raises a TypeError unless the
  language is an own key of the table. The array holds the values of \<open>lineObj.context\<close>
  that were pushed.\<close>

fun importLoop :: "lineObj list \<Rightarrow> jsval \<Rightarrow> jsval list \<Rightarrow> error + jsval list" where
  "importLoop [] lang addedImports = Inr addedImports"
| "importLoop (lineObj # rest) lang addedImports =
     (let line = readProp (context' lineObj) in
      case getProp importPatterns (toStr lang) of
        Own pat \<Rightarrow>
          if regexTest pat (toStr line) then importLoop rest lang (addedImports @ [line])
          else importLoop rest lang addedImports
      | Inherited \<Rightarrow> Inl TypeError
      | Missing \<Rightarrow> Inl TypeError)"

definition containsImports :: "lineObj list \<Rightarrow> jsval \<Rightarrow> error + jsval list" where
  "containsImports addedLines lang = importLoop addedLines lang []"

section \<open>The test-declaration matcher\<close>

text \<open>\<open>hasTestChanges(addedLines)\<close> has no parameter or variable \<open>language\<close>: the first
  call of the callback raises a ReferenceError at \<open>testPatterns[language]\<close>. With no line
  the function ends without a \<open>return\<close>.\<close>

definition hasTestChanges :: "lineObj list \<Rightarrow> error + jsval" where
  "hasTestChanges addedLines = (if addedLines = [] then Inr JUndefined else Inl ReferenceError)"

section \<open>The analyzer\<close>

record analysis =
  a_addedLines :: "lineObj list"
  a_deletedLines :: "lineObj list"
  a_filename :: jsval
  a_isTestFile :: bool
  a_hasNewFunctions :: funcResults
  a_hasImportChanges :: "jsval list"
  a_hasTestChanges :: jsval

text \<open>\<open>analyzeDiff\<close>, from the log it finds to the result (or the error raised) and the
  log it leaves. The fields are computed in the order they are written.\<close>

definition analyzeDiff :: "string \<Rightarrow> logEntry list \<Rightarrow> (error + analysis) \<times> logEntry list" where
  "analyzeDiff patch log0 =
     (let log1 = log0 @ [Info ''Analyzing diff''];
          added = getAddedLines patch;
          deleted = getDeletedLines patch;
          filename = detectLanguage patch;
          testFile = isTestFile (detectLanguage patch)
      in case containsNewFunctions (getAddedLines patch) (detectLanguage patch) of
           (msgs, Inl e) \<Rightarrow> (Inl e, log1 @ msgs)
         | (msgs, Inr functions) \<Rightarrow>
            (case containsImports (getAddedLines patch) (detectLanguage patch) of
               Inl e \<Rightarrow> (Inl e, log1 @ msgs)
             | Inr imports \<Rightarrow>
                (case (if isTestFile (detectLanguage patch)
                       then hasTestChanges (getAddedLines patch) else Inr (JBool False)) of
                   Inl e \<Rightarrow> (Inl e, log1 @ msgs)
                 | Inr testChanges \<Rightarrow>
                     (Inr \<lparr>a_addedLines = added, a_deletedLines = deleted, a_filename = filename,
                           a_isTestFile = testFile, a_hasNewFunctions = functions,
                           a_hasImportChanges = imports, a_hasTestChanges = testChanges\<rparr>,
                      log1 @ msgs))))"

section \<open>Notions used to state the properties\<close>

text \<open>The text after the last occurrence of a character (the whole text when the
  character does not occur): the extension of a path, for the character \<open>.\<close>.\<close>

definition afterLast :: "char \<Rightarrow> string \<Rightarrow> string" where
  "afterLast c s = rev (takeWhile (\<lambda>x. x \<noteq> c) (rev s))"

text \<open>The path \<open>detectLanguage\<close> works on: in the first line whose trimmed text starts
  with \<open>+++\<close>, the trimmed text without its first \<open>+++\<close> and its first \<open>b/\<close>, trimmed
  again.\<close>

definition targetPath :: "string \<Rightarrow> string option" where
  "targetPath patch =
     (case find (\<lambda>line. startsWith ''+++'' (trim line)) (split LF patch) of
        None \<Rightarrow> None
      | Some line \<Rightarrow> Some (trim (replace ''b/'' [] (replace ''+++'' [] (trim line)))))"

text \<open>The three kinds of line the trackers tell apart.\<close>

definition isAddedLine :: "string \<Rightarrow> bool" where
  "isAddedLine line = (startsWith ''+'' line \<and> \<not> startsWith ''+++'' line)"

definition isRemovedLine :: "string \<Rightarrow> bool" where
  "isRemovedLine line = (startsWith ''-'' line \<and> \<not> startsWith ''---'' line)"

definition isContextLine :: "string \<Rightarrow> bool" where
  "isContextLine line = startsWith '' '' line"



text \<open>Every text a pattern matches holds the character: a sufficient syntactic check.\<close>

fun needsChar :: "char \<Rightarrow> rx \<Rightarrow> bool" where
  "needsChar c Never = True"
| "needsChar c Empty = False"
| "needsChar c (One k) = (k = Lit c)"
| "needsChar c (Then r s) = (needsChar c r \<or> needsChar c s)"
| "needsChar c (Or r s) = (needsChar c r \<and> needsChar c s)"
| "needsChar c (Many r) = False"

text \<open>The parts of a hunk header: a run of digits, and an optional count.\<close>

definition digitRuns :: "string set" where
  "digitRuns = {d. d \<noteq> [] \<and> list_all isDigit d}"

definition countParts :: "string set" where
  "countParts = insert [] {CHR '','' # d | d. d \<in> digitRuns}"

text \<open>The line of a control statement that the tests below use.\<close>

definition forLine :: string where
  "forLine = ''for (let i = 0; i < 10; i++) {''"

section \<open>The matcher against the denotation\<close>

lemma many_denotI: "set ws \<subseteq> denot r \<Longrightarrow> concat ws \<in> denot (Many r)"
  by auto

lemma nullable_denot: "nullable r \<longleftrightarrow> [] \<in> denot r"
proof (induction r)
  case (Many r)
  have "concat [] \<in> denot (Many r)" by (rule many_denotI) simp
  then show ?case by simp
qed auto

lemma many_denot_Cons:
  "c # w \<in> denot (Many r) \<longleftrightarrow> (\<exists>u v. w = u @ v \<and> c # u \<in> denot r \<and> v \<in> denot (Many r))"
proof
  assume "c # w \<in> denot (Many r)"
  then obtain ws where ws: "concat ws = c # w" "set ws \<subseteq> denot r" by auto
  then show "\<exists>u v. w = u @ v \<and> c # u \<in> denot r \<and> v \<in> denot (Many r)"
  proof (induction ws)
    case Nil
    then show ?case by simp
  next
    case (Cons a ws)
    show ?case
    proof (cases a)
      case Nil
      with Cons show ?thesis by simp
    next
      case (Cons b u)
      with Cons.prems have "b = c" "w = u @ concat ws" "c # u \<in> denot r" "set ws \<subseteq> denot r"
        by auto
      then show ?thesis by auto
    qed
  qed
next
  assume "\<exists>u v. w = u @ v \<and> c # u \<in> denot r \<and> v \<in> denot (Many r)"
  then obtain u ws where "w = u @ concat ws" "c # u \<in> denot r" "set ws \<subseteq> denot r" by auto
  then have "concat ((c # u) # ws) = c # w" and "set ((c # u) # ws) \<subseteq> denot r" by simp_all
  then show "c # w \<in> denot (Many r)" using many_denotI by metis
qed

lemma deriv_denot: "w \<in> denot (deriv c r) \<longleftrightarrow> c # w \<in> denot r"
proof (induction r arbitrary: w)
  case (Then r s)
  show ?case
    apply (simp add: Then nullable_denot Cons_eq_append_conv)
    by (auto simp: Then)
next
  case (Many r)
  show ?case
    unfolding many_denot_Cons deriv.simps
    by (auto simp: Many simp del: denot.simps(6))
qed auto

lemma matchesAll_denot: "matchesAll r s \<longleftrightarrow> s \<in> denot r"
  by (induction s arbitrary: r) (simp_all add: nullable_denot deriv_denot)

lemma matchesPrefix_denot: "matchesPrefix r s \<longleftrightarrow> (\<exists>u v. s = u @ v \<and> u \<in> denot r)"
proof (induction s arbitrary: r)
  case Nil
  then show ?case by (simp add: nullable_denot)
next
  case (Cons c cs)
  then show ?case
    by (auto simp: nullable_denot deriv_denot Cons_eq_append_conv)
qed

section \<open>The test-file classifier on the names of the specification\<close>

text \<open>
  C9. \<open>isTestFile\<close> is true for \<open>calculator.test.js\<close>, \<open>__tests__/calc.js\<close>,
  \<open>test_calc.py\<close> and \<open>calc_test.py\<close>, and false for \<open>calculator.js\<close>.
\<close>

theorem isTestFile_examples:
  "isTestFile (JStr ''calculator.test.js'') \<and> isTestFile (JStr ''__tests__/calc.js'') \<and>
   isTestFile (JStr ''test_calc.py'') \<and> isTestFile (JStr ''calc_test.py'') \<and>
   \<not> isTestFile (JStr ''calculator.js'')"
  by code_simp

section \<open>The removed-line tracker and the counter\<close>

text \<open>
  C1. The specification wants a removed line recorded with the current counter and the
  counter left as it is. \<open>getDeletedLines\<close> increments the counter after each removed
  line: in the hunk below, whose new side starts at line 5, the line \<open>kept\<close> is line 5 of
  the new file and \<open>gone\<close> was removed before line 6, yet \<open>gone\<close> is recorded with 7.
\<close>

theorem getDeletedLines_advances_counter:
  "getDeletedLines (joinLines [''@@ -5,3 +5,1 @@'', ''-old'', '' kept'', ''-gone'']) =
     [\<lparr>lineNumber = 5, content = Some ''old'', context' = None\<rparr>,
      \<lparr>lineNumber = 7, content = Some ''gone'', context' = None\<rparr>]"
  by code_simp

section \<open>The analyzer raises\<close>

text \<open>
  C2. The specification wants \<open>analyzeDiff\<close> never to raise, and a language without a
  pattern table to give a result. For a Markdown file with one added line,
  \<open>containsNewFunctions\<close> logs that the language has no patterns and returns, and then
  \<open>containsImports\<close> raises a TypeError, because it calls \<open>test\<close> on the missing entry of
  its table.
\<close>

theorem analyzeDiff_raises_unsupported_language:
  "analyzeDiff (joinLines [''+++ b/README.md'', ''@@ -0,0 +1 @@'', ''+hello'']) [] =
     (Inl TypeError, [Info ''Analyzing diff'', Warn ''No patterns defined for language: md''])"
  by code_simp

text \<open>
  C3. The specification wants the added line \<open>function computeTotal(x, y) {\<close> of a
  JavaScript patch reported with its line number. \<open>getAddedLines\<close> stores the text of a
  line under \<open>content\<close>, \<open>containsNewFunctions\<close> reads \<open>context\<close>, finds \<open>undefined\<close> and
  raises a TypeError at \<open>currentContext.match\<close>: \<open>analyzeDiff\<close> has no result. The tracker
  gives the line its number 10, and the matcher reports a line object that has the text
  under \<open>context\<close>.
\<close>

theorem analyzeDiff_raises_on_js_function:
  "fst (analyzeDiff (joinLines [''+++ b/calc.js'', ''@@ -0,0 +10,1 @@'',
          ''+function computeTotal(x, y) {'']) []) = Inl TypeError \<and>
   getAddedLines (joinLines [''+++ b/calc.js'', ''@@ -0,0 +10,1 @@'',
          ''+function computeTotal(x, y) {'']) =
     [\<lparr>lineNumber = 10, content = Some ''function computeTotal(x, y) {'', context' = None\<rparr>] \<and>
   containsNewFunctions
     [\<lparr>lineNumber = 10, content = None, context' = Some ''function computeTotal(x, y) {''\<rparr>]
     (JStr ''js'') =
     ([], Inr \<lparr>hasNewFunctions = True, newFunctions = [''function computeTotal(x, y) {''],
               lineNumbers = [10], language = JStr ''js''\<rparr>)"
  by code_simp

section \<open>The analyzer is a function of the patch\<close>

text \<open>
  C10. Two calls of \<open>analyzeDiff\<close> with the same patch give the same result (or raise the
  same error). The parser object has no field, the tables and patterns are built anew in
  each call, and no pattern has the flag \<open>g\<close> or \<open>y\<close>, so matching keeps no position. The
  only state a call finds and leaves is the log of the logger; the result does not depend
  on it, so the second of two calls in a row, which finds the log the first one left,
  returns what the first one returned.
\<close>

theorem analyzeDiff_deterministic:
  "fst (analyzeDiff patch (snd (analyzeDiff patch log0))) = fst (analyzeDiff patch log0) \<and>
   fst (analyzeDiff patch log1) = fst (analyzeDiff patch log2)"
  by (simp add: analyzeDiff_def Let_def split: prod.splits sum.splits)

section \<open>The language detector\<close>

lemma split_not_Nil: "split c s \<noteq> []"
  by (induction s) (auto split: list.splits)

lemma afterLast_Cons:
  "afterLast c (x # xs) = (if c \<in> set xs then afterLast c xs else if x = c then xs else x # xs)"
proof (cases "c \<in> set xs")
  case True
  then have "takeWhile (\<lambda>y. y \<noteq> c) (rev xs @ [x]) = takeWhile (\<lambda>y. y \<noteq> c) (rev xs)"
    by (intro takeWhile_append1[of c]) auto
  with True show ?thesis by (simp add: afterLast_def)
next
  case False
  then have "takeWhile (\<lambda>y. y \<noteq> c) (rev xs @ [x]) = rev xs @ takeWhile (\<lambda>y. y \<noteq> c) [x]"
    by (intro takeWhile_append2) auto
  with False show ?thesis by (simp add: afterLast_def)
qed

lemma afterLast_notin: "c \<notin> set s \<Longrightarrow> afterLast c s = s"
proof -
  assume "c \<notin> set s"
  then have h: "takeWhile (\<lambda>x. x \<noteq> c) (rev s) = rev s"
    by (intro iffD2[OF takeWhile_eq_all_conv]) auto
  show ?thesis unfolding afterLast_def h by simp
qed

lemma afterLast_free: "c \<notin> set (afterLast c s)"
  by (auto simp: afterLast_def dest: set_takeWhileD)

lemma split_several: "c \<in> set s \<longleftrightarrow> length (split c s) > 1"
  by (induction s) (auto split: list.splits simp: split_not_Nil)

lemma last_split: "last (split c s) = afterLast c s"
proof (induction s)
  case Nil
  show ?case by (simp add: afterLast_def)
next
  case (Cons x xs)
  obtain l ls where sp: "split c xs = l # ls"
    using split_not_Nil[of c xs] by (cases "split c xs") auto
  show ?case
  proof (cases "c \<in> set xs")
    case True
    then have "ls \<noteq> []" using sp split_several[of c xs] by auto
    with True Cons sp show ?thesis by (simp add: afterLast_Cons)
  next
    case False
    then have "ls = []" using sp split_several[of c xs] by auto
    with False Cons sp show ?thesis by (auto simp: afterLast_Cons afterLast_notin)
  qed
qed

lemma pop_split: "pop (split c s) = JStr (afterLast c s)"
  by (simp add: pop_def split_not_Nil last_split)

lemma detectLoop_find:
  "detectLoop ls =
     (case find (\<lambda>line. startsWith ''+++'' (trim line)) ls of
        None \<Rightarrow> JNull
      | Some line \<Rightarrow>
          JStr (afterLast (CHR ''.'') (trim (replace ''b/'' [] (replace ''+++'' [] (trim line))))))"
  by (induction ls) (simp_all add: Let_def pop_split)

lemma detectLanguage_targetPath:
  "detectLanguage patch =
     (case targetPath patch of None \<Rightarrow> JNull | Some path \<Rightarrow> JStr (afterLast (CHR ''.'') path))"
  by (simp add: detectLanguage_def targetPath_def detectLoop_find split: option.splits)

text \<open>
  C4, as the code has it. \<open>detectLanguage\<close> returns the text after the last \<open>.\<close> of the
  path, in the letter case it has there and the whole path when it holds no \<open>.\<close>; the
  path is taken from the first line whose trimmed text begins with \<open>+++\<close>, by removing
  the first \<open>+++\<close> and the first \<open>b/\<close> and trimming. It returns \<open>null\<close> when no line
  begins so. For the header \<open>+++ b/src/app.py\<close> it returns \<open>py\<close>.
\<close>

theorem detectLanguage_extension:
  "detectLanguage patch =
     (case targetPath patch of None \<Rightarrow> JNull | Some path \<Rightarrow> JStr (afterLast (CHR ''.'') path)) \<and>
   detectLanguage ''+++ b/src/app.py'' = JStr ''py''"
proof
  show "detectLanguage patch =
     (case targetPath patch of None \<Rightarrow> JNull | Some path \<Rightarrow> JStr (afterLast (CHR ''.'') path))"
    by (rule detectLanguage_targetPath)
  show "detectLanguage ''+++ b/src/app.py'' = JStr ''py''"
    by code_simp
qed

text \<open>C4 as the specification states it fails: the extension is not lower-cased, a
  patch without a \<open>+++\<close> line gives \<open>null\<close> and not \<open>unknown\<close>, and a path without an
  extension is returned whole.\<close>

theorem detectLanguage_counterexample:
  "detectLanguage ''+++ b/src/App.PY'' = JStr ''PY'' \<and>
   detectLanguage ''diff --git a/x b/x'' = JNull \<and>
   detectLanguage ''+++ b/Makefile'' = JStr ''Makefile''"
  by code_simp

section \<open>The test-file flag of the analyzer\<close>

lemma needsChar_denot: "needsChar c r \<Longrightarrow> w \<in> denot r \<Longrightarrow> c \<in> set w"
  by (induction r arbitrary: w) auto

lemma searchFrom_suffix: "searchFrom re s \<Longrightarrow> \<exists>a b. s = a @ b \<and> matchAt re b"
proof (induction s)
  case Nil
  then show ?case by simp
next
  case (Cons c cs)
  show ?case
  proof (cases "matchAt re (c # cs)")
    case True
    then have "c # cs = [] @ (c # cs) \<and> matchAt re (c # cs)" by simp
    then show ?thesis by blast
  next
    case False
    with Cons obtain a b where "cs = a @ b" "matchAt re b" by auto
    then have "c # cs = (c # a) @ b \<and> matchAt re b" by simp
    then show ?thesis by blast
  qed
qed

lemma matchAt_needsChar: "needsChar c (body re) \<Longrightarrow> matchAt re s \<Longrightarrow> c \<in> set s"
  by (auto simp: matchAt_def matchesAll_denot matchesPrefix_denot dest: needsChar_denot
      split: if_splits)

lemma regexTest_needsChar:
  assumes "needsChar c (body re)" and "c \<notin> set s"
  shows "\<not> regexTest re s"
proof
  assume "regexTest re s"
  then obtain a b where "s = a @ b" "matchAt re b"
    using searchFrom_suffix[of re s] by (auto simp: regexTest_def split: if_splits)
  with assms matchAt_needsChar[of c re b] show False by auto
qed


lemma isTestFile_no_dot:
  assumes "CHR ''.'' \<notin> set (toStr v)"
  shows "isTestFile v = regexTest (unanchored (Lits ''__tests__/'')) (toStr v)"
proof -
  have n: "\<And>re. needsChar (CHR ''.'') (body re) \<Longrightarrow> \<not> regexTest re (toStr v)"
    using assms regexTest_needsChar by blast
  show ?thesis
    unfolding isTestFile_def testPatterns_def
    by (simp add: n unanchored_def atEnd_def Lits_def Seqs_def)
qed


lemma detectLanguage_no_dot: "CHR ''.'' \<notin> set (toStr (detectLanguage patch))"
  by (simp add: detectLanguage_targetPath afterLast_free split: option.splits)

lemma analyzeDiff_fields:
  assumes "fst (analyzeDiff patch log0) = Inr r"
  shows "a_isTestFile r = isTestFile (detectLanguage patch) \<and>
         a_hasTestChanges r =
           (if isTestFile (detectLanguage patch) then JUndefined else JBool False)"
  using assms
  by (auto simp: analyzeDiff_def Let_def hasTestChanges_def
      split: prod.splits sum.splits if_splits)

text \<open>
  C5, as the code has it. \<open>analyzeDiff\<close> applies the test-name patterns to the result of
  \<open>detectLanguage\<close>, the text after the last \<open>.\<close> of the path, and not to the file name.
  That text holds no \<open>.\<close>, so of the eight patterns only \<open>__tests__/\<close> can match it: for
  every patch whose \<open>+++\<close> path contains a \<open>.\<close>, the field \<open>isTestFile\<close> of a result is
  true exactly when the text after the last \<open>.\<close> of the path contains \<open>__tests__/\<close>, and
  when it is false the field \<open>hasTestChanges\<close> is \<open>false\<close>. For
  \<open>+++ b/calculator.test.js\<close> both are false.
\<close>

theorem analyzeDiff_isTestFile_on_extension:
  assumes "targetPath patch = Some path" and "CHR ''.'' \<in> set path"
  shows "isTestFile (detectLanguage patch) =
           regexTest (unanchored (Lits ''__tests__/'')) (afterLast (CHR ''.'') path) \<and>
         (\<forall>log0 r. fst (analyzeDiff patch log0) = Inr r \<longrightarrow>
            a_isTestFile r =
              regexTest (unanchored (Lits ''__tests__/'')) (afterLast (CHR ''.'') path) \<and>
            (\<not> a_isTestFile r \<longrightarrow> a_hasTestChanges r = JBool False))"
proof -
  have d: "detectLanguage patch = JStr (afterLast (CHR ''.'') path)"
    using assms(1) by (simp add: detectLanguage_targetPath)
  have t: "isTestFile (detectLanguage patch) =
           regexTest (unanchored (Lits ''__tests__/'')) (afterLast (CHR ''.'') path)"
    using isTestFile_no_dot[OF detectLanguage_no_dot, of patch] by (simp add: d)
  show ?thesis
    using t analyzeDiff_fields by (metis (full_types))
qed

theorem analyzeDiff_isTestFile_witness:
  "targetPath ''+++ b/calculator.test.js'' = Some ''calculator.test.js'' \<and>
   CHR ''.'' \<in> set ''calculator.test.js'' \<and>
   \<not> isTestFile (detectLanguage ''+++ b/calculator.test.js'') \<and>
   fst (analyzeDiff ''+++ b/calculator.test.js'' []) =
     Inr \<lparr>a_addedLines = [], a_deletedLines = [], a_filename = JStr ''js'',
          a_isTestFile = False,
          a_hasNewFunctions = \<lparr>hasNewFunctions = False, newFunctions = [], lineNumbers = [],
                                language = JStr ''js''\<rparr>,
          a_hasImportChanges = [], a_hasTestChanges = JBool False\<rparr>"
proof -
  have p: "targetPath ''+++ b/calculator.test.js'' = Some ''calculator.test.js''"
    by code_simp
  have m: "CHR ''.'' \<in> set ''calculator.test.js''"
    by simp
  have a: "afterLast (CHR ''.'') ''calculator.test.js'' = ''js''"
    by code_simp
  have n: "\<not> regexTest (unanchored (Lits ''__tests__/'')) ''js''"
    by code_simp
  have r: "fst (analyzeDiff ''+++ b/calculator.test.js'' []) =
     Inr \<lparr>a_addedLines = [], a_deletedLines = [], a_filename = JStr ''js'',
          a_isTestFile = False,
          a_hasNewFunctions = \<lparr>hasNewFunctions = False, newFunctions = [], lineNumbers = [],
                                language = JStr ''js''\<rparr>,
          a_hasImportChanges = [], a_hasTestChanges = JBool False\<rparr>"
    by code_simp
  from analyzeDiff_isTestFile_on_extension[OF p m] a n
  have "\<not> isTestFile (detectLanguage ''+++ b/calculator.test.js'')" by simp
  with p m r show ?thesis by blast
qed

text \<open>C5 as stated fails: the path below contains a \<open>.\<close>, and \<open>isTestFile\<close> is true
  (and \<open>hasTestChanges\<close> is \<open>undefined\<close>, not \<open>false\<close>).\<close>

theorem analyzeDiff_isTestFile_counterexample:
  "analyzeDiff ''+++ b/pkg.v2/__tests__/calc'' [] =
     (Inr \<lparr>a_addedLines = [], a_deletedLines = [], a_filename = JStr ''v2/__tests__/calc'',
           a_isTestFile = True,
           a_hasNewFunctions = \<lparr>hasNewFunctions = False, newFunctions = [], lineNumbers = [],
                                 language = JStr ''v2/__tests__/calc''\<rparr>,
           a_hasImportChanges = [], a_hasTestChanges = JUndefined\<rparr>,
      [Info ''Analyzing diff'', Warn ''No patterns defined for language: v2/__tests__/calc''])"
  by code_simp

section \<open>The trackers on a patch without hunk header\<close>

lemma addedLoop_acc: "addedLoop ls n acc = acc @ addedLoop ls n []"
proof (induction ls arbitrary: n acc)
  case Nil
  show ?case by simp
next
  case (Cons l ls)
  let ?x = "\<lparr>lineNumber = n, content = Some (drop 1 l), context' = None\<rparr>"
  have 1: "addedLoop ls (n + 1) (acc @ [?x]) = acc @ ?x # addedLoop ls (n + 1) []"
    using Cons[of "n + 1" "acc @ [?x]"] by simp
  have 2: "addedLoop ls (n + 1) [?x] = ?x # addedLoop ls (n + 1) []"
    using Cons[of "n + 1" "[?x]"] by simp
  have 3: "\<And>k. addedLoop ls k acc = acc @ addedLoop ls k []"
    by (rule Cons)
  show ?case
  proof (cases "hunkMatch l")
    case None
    then show ?thesis using 1 2 3[of "n + 1"] 3[of n] by auto
  next
    case (Some k)
    then show ?thesis using 3[of k] by simp
  qed
qed

lemma deletedLoop_acc: "deletedLoop ls n acc = acc @ deletedLoop ls n []"
proof (induction ls arbitrary: n acc)
  case Nil
  show ?case by simp
next
  case (Cons l ls)
  let ?x = "\<lparr>lineNumber = n, content = Some (drop 1 l), context' = None\<rparr>"
  have 1: "deletedLoop ls (n + 1) (acc @ [?x]) = acc @ ?x # deletedLoop ls (n + 1) []"
    using Cons[of "n + 1" "acc @ [?x]"] by simp
  have 2: "deletedLoop ls (n + 1) [?x] = ?x # deletedLoop ls (n + 1) []"
    using Cons[of "n + 1" "[?x]"] by simp
  have 3: "\<And>k. deletedLoop ls k acc = acc @ deletedLoop ls k []"
    by (rule Cons)
  show ?case
  proof (cases "hunkMatch l")
    case None
    then show ?thesis using 1 2 3[of "n + 1"] 3[of n] by auto
  next
    case (Some k)
    then show ?thesis using 3[of k] by simp
  qed
qed

lemma addedLoop_Cons:
  "addedLoop (l # ls) n [] =
     (case hunkMatch l of
        Some k \<Rightarrow> addedLoop ls k []
      | None \<Rightarrow>
          if isAddedLine l
          then \<lparr>lineNumber = n, content = Some (drop 1 l), context' = None\<rparr> # addedLoop ls (n + 1) []
          else if isContextLine l then addedLoop ls (n + 1) [] else addedLoop ls n [])"
  using addedLoop_acc[of ls "n + 1" "[\<lparr>lineNumber = n, content = Some (drop 1 l), context' = None\<rparr>]"]
  by (auto simp: isAddedLine_def isContextLine_def split: option.splits)

lemma deletedLoop_Cons:
  "deletedLoop (l # ls) n [] =
     (case hunkMatch l of
        Some k \<Rightarrow> deletedLoop ls k []
      | None \<Rightarrow>
          if isRemovedLine l
          then \<lparr>lineNumber = n, content = Some (drop 1 l), context' = None\<rparr> # deletedLoop ls (n + 1) []
          else if isContextLine l then deletedLoop ls (n + 1) [] else deletedLoop ls n [])"
  using deletedLoop_acc[of ls "n + 1" "[\<lparr>lineNumber = n, content = Some (drop 1 l), context' = None\<rparr>]"]
  by (auto simp: isRemovedLine_def isContextLine_def split: option.splits)

lemma addedLoop_no_header:
  "list_all (\<lambda>line. hunkMatch line = None) ls \<Longrightarrow>
   map content (addedLoop ls n []) = map (\<lambda>line. Some (drop 1 line)) (filter isAddedLine ls)"
  by (induction ls arbitrary: n) (simp_all add: addedLoop_Cons del: addedLoop.simps(2))

lemma deletedLoop_no_header:
  "list_all (\<lambda>line. hunkMatch line = None) ls \<Longrightarrow>
   map content (deletedLoop ls n []) = map (\<lambda>line. Some (drop 1 line)) (filter isRemovedLine ls)"
  by (induction ls arbitrary: n) (simp_all add: deletedLoop_Cons del: deletedLoop.simps(2))



lemma filter_Nil_list_ex: "filter P xs = [] \<longleftrightarrow> \<not> list_ex P xs"
  by (induction xs) auto

text \<open>
  C6, as the code has it. Neither tracker waits for a hunk header, and no step of their
  loops can raise (the model has no error to return). For every patch without a
  hunk-header line, \<open>getAddedLines\<close> returns, in order, the lines that begin with \<open>+\<close> and
  not with \<open>+++\<close>, and \<open>getDeletedLines\<close> those that begin with \<open>-\<close> and not with \<open>---\<close>,
  each without its first character; so a collection is empty exactly when the patch has
  no such line.
\<close>

theorem trackers_without_hunk_header:
  assumes "list_all (\<lambda>line. hunkMatch line = None) (split LF patch)"
  shows "map content (getAddedLines patch) =
           map (\<lambda>line. Some (drop 1 line)) (filter isAddedLine (split LF patch)) \<and>
         map content (getDeletedLines patch) =
           map (\<lambda>line. Some (drop 1 line)) (filter isRemovedLine (split LF patch)) \<and>
         (getAddedLines patch = []) = (\<not> list_ex isAddedLine (split LF patch)) \<and>
         (getDeletedLines patch = []) = (\<not> list_ex isRemovedLine (split LF patch))"
proof -
  have a: "map content (getAddedLines patch) =
           map (\<lambda>line. Some (drop 1 line)) (filter isAddedLine (split LF patch))"
    unfolding getAddedLines_def by (rule addedLoop_no_header[OF assms])
  have d: "map content (getDeletedLines patch) =
           map (\<lambda>line. Some (drop 1 line)) (filter isRemovedLine (split LF patch))"
    unfolding getDeletedLines_def by (rule deletedLoop_no_header[OF assms])
  have a0: "(getAddedLines patch = []) = (\<not> list_ex isAddedLine (split LF patch))"
  proof -
    have "(getAddedLines patch = []) = (map content (getAddedLines patch) = [])" by simp
    also have "\<dots> = (filter isAddedLine (split LF patch) = [])" unfolding a by simp
    finally show ?thesis by (simp only: filter_Nil_list_ex)
  qed
  have d0: "(getDeletedLines patch = []) = (\<not> list_ex isRemovedLine (split LF patch))"
  proof -
    have "(getDeletedLines patch = []) = (map content (getDeletedLines patch) = [])" by simp
    also have "\<dots> = (filter isRemovedLine (split LF patch) = [])" unfolding d by simp
    finally show ?thesis by (simp only: filter_Nil_list_ex)
  qed
  from a d a0 d0 show ?thesis by blast
qed


theorem trackers_without_hunk_header_witness:
  "list_all (\<lambda>line. hunkMatch line = None)
     (split LF (joinLines [''+++ b/a.txt'', ''+x'', ''-y'', '' z''])) \<and>
   map content (getAddedLines (joinLines [''+++ b/a.txt'', ''+x'', ''-y'', '' z''])) =
     [Some ''x''] \<and>
   map content (getDeletedLines (joinLines [''+++ b/a.txt'', ''+x'', ''-y'', '' z''])) =
     [Some ''y'']"
proof -
  let ?p = "joinLines [''+++ b/a.txt'', ''+x'', ''-y'', '' z'']"
  have h: "list_all (\<lambda>line. hunkMatch line = None) (split LF ?p)"
    by code_simp
  have fa: "map (\<lambda>line. Some (drop 1 line)) (filter isAddedLine (split LF ?p)) = [Some ''x'']"
    by code_simp
  have fd: "map (\<lambda>line. Some (drop 1 line)) (filter isRemovedLine (split LF ?p)) = [Some ''y'']"
    by code_simp
  have "map content (getAddedLines ?p) = [Some ''x'']"
    using trackers_without_hunk_header[OF h] unfolding fa by blast
  moreover have "map content (getDeletedLines ?p) = [Some ''y'']"
    using trackers_without_hunk_header[OF h] unfolding fd by blast
  ultimately show ?thesis using h by blast
qed

text \<open>C6 as stated fails: without a hunk header a line that begins with \<open>+\<close> or \<open>-\<close>
  is recorded, with the initial counter 0.\<close>

theorem trackers_without_hunk_header_counterexample:
  "list_all (\<lambda>line. hunkMatch line = None) (split LF ''+x'') \<and>
   getAddedLines ''+x'' = [\<lparr>lineNumber = 0, content = Some ''x'', context' = None\<rparr>] \<and>
   list_all (\<lambda>line. hunkMatch line = None) (split LF ''-y'') \<and>
   getDeletedLines ''-y'' = [\<lparr>lineNumber = 0, content = Some ''y'', context' = None\<rparr>]"
  by code_simp

section \<open>The line numbers of the added lines\<close>






section \<open>Exclusion before acceptance\<close>

lemma lineStep_excluded:
  "regexTest commonPatterns (toStr (readProp (context' l))) \<Longrightarrow> lineStep tbl l st = Inr st"
  by (simp add: lineStep_def)

lemma forEachLine_filter:
  "forEachLine tbl (filter (\<lambda>l. \<not> regexTest commonPatterns (toStr (readProp (context' l)))) ls) st =
   forEachLine tbl ls st"
  by (induction ls arbitrary: st) (simp_all add: lineStep_excluded split: sum.splits)

lemma containsNewFunctions_filter:
  "containsNewFunctions (filter (\<lambda>l. \<not> regexTest commonPatterns (toStr (readProp (context' l)))) ls) lang =
   containsNewFunctions ls lang"
  by (simp add: containsNewFunctions_def forEachLine_filter split: lookup.splits)


lemma spaces_denot: "list_all isSpace w \<Longrightarrow> w \<in> denot (Many sp)"
proof -
  assume a: "list_all isSpace w"
  have "set (map (\<lambda>c. [c]) w) \<subseteq> denot sp"
    using a by (auto simp: sp_def list_all_iff)
  from many_denotI[OF this] show ?thesis by simp
qed

lemma many_denot_append:
  "u \<in> denot (Many r) \<Longrightarrow> v \<in> denot (Many r) \<Longrightarrow> u @ v \<in> denot (Many r)"
proof -
  assume "u \<in> denot (Many r)" "v \<in> denot (Many r)"
  then obtain us vs where "u = concat us" "set us \<subseteq> denot r" "v = concat vs" "set vs \<subseteq> denot r"
    by auto
  then have "u @ v = concat (us @ vs)" "set (us @ vs) \<subseteq> denot r" by simp_all
  then show ?thesis using many_denotI by metis
qed

lemma trim_decompose: "\<exists>w0 w1. s = w0 @ trim s @ w1 \<and> list_all isSpace w0"
proof -
  let ?d = "dropWhile isSpace s"
  have 1: "s = takeWhile isSpace s @ ?d" by simp
  have "trim s @ rev (takeWhile isSpace (rev ?d)) =
        rev (takeWhile isSpace (rev ?d) @ dropWhile isSpace (rev ?d))"
    by (simp only: trim_def rev_append)
  also have "\<dots> = ?d"
    by (simp only: takeWhile_dropWhile_id rev_rev_ident)
  finally have 2: "?d = trim s @ rev (takeWhile isSpace (rev ?d))" by simp
  have 3: "list_all isSpace (takeWhile isSpace s)"
    by (auto simp: list_all_iff dest: set_takeWhileD)
  from 1 2 have "s = takeWhile isSpace s @ trim s @ rev (takeWhile isSpace (rev ?d))"
    by metis
  with 3 show ?thesis by blast
qed

lemma leading_space_match:
  assumes "matchesPrefix (Then (Many sp) r) t" and "list_all isSpace w0"
  shows "matchesPrefix (Then (Many sp) r) (w0 @ t @ w1)"
proof -
  from assms(1) obtain u v where u: "t = u @ v" "u \<in> denot (Then (Many sp) r)"
    unfolding matchesPrefix_denot by blast
  from u(2) obtain a b where ab: "u = a @ b" "a \<in> denot (Many sp)" "b \<in> denot r"
    unfolding denot.simps(4) by blast
  from u(1) ab have t: "t = (a @ b) @ v" "a \<in> denot (Many sp)" "b \<in> denot r"
    by simp_all
  have "w0 @ a \<in> denot (Many sp)"
    using many_denot_append[OF spaces_denot[OF assms(2)] t(2)] .
  then have "(w0 @ a) @ b \<in> denot (Then (Many sp) r)"
    using t(3) unfolding denot.simps(4) by blast
  moreover have "w0 @ t @ w1 = ((w0 @ a) @ b) @ (v @ w1)" using t(1) by simp
  ultimately show ?thesis unfolding matchesPrefix_denot by blast
qed

lemma commonPatterns_trim:
  "regexTest commonPatterns (trim s) \<Longrightarrow> regexTest commonPatterns s"
proof -
  assume a: "regexTest commonPatterns (trim s)"
  obtain w0 w1 where s: "s = w0 @ trim s @ w1" "list_all isSpace w0"
    using trim_decompose by blast
  obtain r where b: "body commonPatterns = Then (Many sp) r"
    by (simp add: commonPatterns_def atStart_def Seqs_def)
  have f: "anchoredStart commonPatterns" "\<not> anchoredEnd commonPatterns"
    by (simp_all add: commonPatterns_def atStart_def)
  from a f b have "matchesPrefix (Then (Many sp) r) (trim s)"
    by (simp add: regexTest_def matchAt_def)
  from leading_space_match[OF this s(2), of w1] s(1)
  have "matchesPrefix (Then (Many sp) r) s" by simp
  with f b show ?thesis by (simp add: regexTest_def matchAt_def)
qed


lemma patternLoop_records:
  "patternLoop tbl l st = Inr st' \<Longrightarrow>
   list_all (\<lambda>f. \<not> regexTest commonPatterns f) (fst st) \<Longrightarrow>
   list_all (\<lambda>f. \<not> regexTest commonPatterns f) (fst st')"
proof (induction tbl)
  case Nil
  then show ?case by simp
next
  case (Cons p tbl)
  obtain ty pat where p: "p = (ty, pat)" by (cases p)
  from Cons.prems(1) obtain s where s: "context' l = Some s"
    by (cases "context' l") (simp_all add: p)
  show ?case
  proof (cases "regexTest pat s \<and> \<not> regexTest commonPatterns s")
    case True
    then have "\<not> regexTest commonPatterns (trim s)" using commonPatterns_trim by blast
    moreover from Cons.prems(1) True have "fst st' = fst st @ [trim s]"
      by (auto simp: p s)
    ultimately show ?thesis using Cons.prems(2) by simp
  next
    case False
    with Cons.prems(1) have "patternLoop tbl l st = Inr st'"
      by (auto simp: p s split: if_splits)
    from Cons.IH[OF this Cons.prems(2)] show ?thesis .
  qed
qed

lemma forEachLine_records:
  "forEachLine tbl ls st = Inr st' \<Longrightarrow>
   list_all (\<lambda>f. \<not> regexTest commonPatterns f) (fst st) \<Longrightarrow>
   list_all (\<lambda>f. \<not> regexTest commonPatterns f) (fst st')"
proof (induction ls arbitrary: st)
  case Nil
  then show ?case by simp
next
  case (Cons l ls)
  from Cons.prems(1) obtain st1 where 1: "lineStep tbl l st = Inr st1"
    and 2: "forEachLine tbl ls st1 = Inr st'"
    by (auto split: sum.splits)
  have "list_all (\<lambda>f. \<not> regexTest commonPatterns f) (fst st1)"
    using 1 Cons.prems(2) patternLoop_records[of tbl l st st1]
    by (auto simp: lineStep_def split: if_splits)
  from Cons.IH[OF 2 this] show ?case .
qed

lemma containsNewFunctions_records:
  assumes "snd (containsNewFunctions ls lang) = Inr res"
  shows "list_all (\<lambda>f. \<not> regexTest commonPatterns f) (newFunctions res)"
proof (cases "getProp patterns (toStr lang)")
  case Missing
  with assms show ?thesis by (auto simp: containsNewFunctions_def)
next
  case Inherited
  with assms obtain st where "forEachLine [] ls ([], []) = Inr st" "res = finish lang st"
    by (cases "forEachLine [] ls ([], [])") (auto simp: containsNewFunctions_def)
  with forEachLine_records[of "[]" ls "([], [])" st] show ?thesis
    by (simp add: finish_def)
next
  case (Own tbl)
  with assms obtain st where "forEachLine tbl ls ([], []) = Inr st" "res = finish lang st"
    by (cases "forEachLine tbl ls ([], [])") (auto simp: containsNewFunctions_def)
  with forEachLine_records[of tbl ls "([], [])" st] show ?thesis
    by (simp add: finish_def)
qed

lemma forLine_excluded: "regexTest commonPatterns forLine"
  by code_simp

lemma forLine_method: "regexTest jsMethod forLine"
  by code_simp

text \<open>
  C8. For every array of added lines and every language, a line whose text matches the
  exclusion pattern (\<open>for\<close>, \<open>while\<close>, \<open>if\<close>, \<open>else\<close>, \<open>switch\<close> or \<open>catch\<close>, then \<open>(\<close>)
  is never recorded as a new function: \<open>containsNewFunctions\<close> returns what it returns
  without the excluded lines, and no text it records matches the exclusion pattern. The
  line \<open>for (let i = 0; i < 10; i++) {\<close> matches the method pattern of the table for
  \<open>js\<close> and the exclusion pattern, and is never among the recorded functions.
\<close>

theorem excluded_lines_not_recorded:
  "containsNewFunctions addedLines lang =
     containsNewFunctions
       (filter (\<lambda>l. \<not> regexTest commonPatterns (toStr (readProp (context' l)))) addedLines) lang \<and>
   (\<forall>res. snd (containsNewFunctions addedLines lang) = Inr res \<longrightarrow>
      list_all (\<lambda>f. \<not> regexTest commonPatterns f) (newFunctions res) \<and>
      forLine \<notin> set (newFunctions res)) \<and>
   regexTest commonPatterns forLine \<and> regexTest jsMethod forLine"
proof -
  have "forLine \<notin> set (newFunctions res)"
    if "snd (containsNewFunctions addedLines lang) = Inr res" for res
    using containsNewFunctions_records[OF that] forLine_excluded
    by (auto simp: list_all_iff)
  then show ?thesis
    using containsNewFunctions_filter[of addedLines lang] containsNewFunctions_records
      forLine_excluded forLine_method
    by (simp (no_asm_simp))
qed

theorem excluded_lines_not_recorded_witness:
  "snd (containsNewFunctions
      [\<lparr>lineNumber = 10, content = None, context' = Some ''function computeTotal(x, y) {''\<rparr>,
       \<lparr>lineNumber = 11, content = None, context' = Some forLine\<rparr>] (JStr ''js'')) =
     Inr \<lparr>hasNewFunctions = True, newFunctions = [''function computeTotal(x, y) {''],
          lineNumbers = [10], language = JStr ''js''\<rparr> \<and>
   \<not> regexTest commonPatterns ''function computeTotal(x, y) {'' \<and>
   forLine \<noteq> ''function computeTotal(x, y) {''"
proof -
  let ?w = "[\<lparr>lineNumber = 10, content = None, context' = Some ''function computeTotal(x, y) {''\<rparr>,
       \<lparr>lineNumber = 11, content = None, context' = Some forLine\<rparr>]"
  let ?r = "\<lparr>hasNewFunctions = True, newFunctions = [''function computeTotal(x, y) {''],
          lineNumbers = [10], language = JStr ''js''\<rparr>"
  have e: "snd (containsNewFunctions ?w (JStr ''js'')) = Inr ?r"
    by code_simp
  from excluded_lines_not_recorded[of ?w "JStr ''js''"] e
  have "list_all (\<lambda>f. \<not> regexTest commonPatterns f) (newFunctions ?r) \<and>
        forLine \<notin> set (newFunctions ?r)"
    by blast
  then have "\<not> regexTest commonPatterns ''function computeTotal(x, y) {'' \<and>
        forLine \<noteq> ''function computeTotal(x, y) {''"
    by simp
  with e show ?thesis by blast
qed

section \<open>The hunk-header parser against the pattern\<close>

text \<open>\<open>hunkMatch\<close> accepts the lines the pattern of the source matches, and returns the
  number the digits of the second run stand for: the capture group.\<close>

lemma startsWith_iff: "startsWith p s \<longleftrightarrow> (\<exists>v. s = p @ v)"
  by (induction p s rule: startsWith.induct) auto

lemma stripPrefix_Some: "stripPrefix p s = Some r \<longleftrightarrow> s = p @ r"
  by (auto simp: stripPrefix_def startsWith_iff)

lemma denot_Lits: "denot (Lits s) = {s}"
  by (induction s) (auto simp: Lits_def)

lemma denot_Seqs_Cons: "denot (Seqs (r # rs)) = {u @ v | u v. u \<in> denot r \<and> v \<in> denot (Seqs rs)}"
  by (simp add: Seqs_def)

lemma denot_Seqs_Nil: "denot (Seqs []) = {[]}"
  by (simp add: Seqs_def)

lemma denot_Opt: "denot (Opt r) = insert [] (denot r)"
  by (auto simp: Opt_def)

lemma denot_many_class:
  "w \<in> denot (Many (One k)) \<longleftrightarrow> list_all (inClass k) w"
proof
  assume "w \<in> denot (Many (One k))"
  then obtain ws where "w = concat ws" "set ws \<subseteq> denot (One k)" by auto
  then show "list_all (inClass k) w"
    by (induction ws arbitrary: w) (auto simp: list_all_iff)
next
  assume a: "list_all (inClass k) w"
  have "set (map (\<lambda>c. [c]) w) \<subseteq> denot (One k)"
    using a by (auto simp: list_all_iff)
  from many_denotI[OF this] show "w \<in> denot (Many (One k))" by simp
qed

lemma denot_plus_class:
  "w \<in> denot (Plus (One k)) \<longleftrightarrow> w \<noteq> [] \<and> list_all (inClass k) w"
proof -
  have "w \<in> denot (Plus (One k)) \<longleftrightarrow>
        (\<exists>u v. w = u @ v \<and> u \<in> denot (One k) \<and> v \<in> denot (Many (One k)))"
    unfolding Plus_def denot.simps(4) by blast
  also have "\<dots> \<longleftrightarrow> (\<exists>c v. w = [c] @ v \<and> inClass k c \<and> v \<in> denot (Many (One k)))"
    unfolding denot.simps(3) by blast
  finally have "w \<in> denot (Plus (One k)) \<longleftrightarrow>
        (\<exists>c v. w = c # v \<and> inClass k c \<and> v \<in> denot (Many (One k)))"
    by (simp del: denot.simps(6))
  then show ?thesis
    unfolding denot_many_class by (cases w) auto
qed

lemma digits1_Some:
  "digits1 s = Some (d, r) \<longleftrightarrow>
     s = d @ r \<and> d \<noteq> [] \<and> list_all isDigit d \<and> (r = [] \<or> \<not> isDigit (hd r))"
proof
  assume "digits1 s = Some (d, r)"
  then have d: "d = takeWhile isDigit s" "r = dropWhile isDigit s" "d \<noteq> []"
    by (auto simp: digits1_def Let_def split: if_splits)
  have "r = [] \<or> \<not> isDigit (hd r)"
    unfolding d(2) using hd_dropWhile[of isDigit s] by blast
  with d show "s = d @ r \<and> d \<noteq> [] \<and> list_all isDigit d \<and> (r = [] \<or> \<not> isDigit (hd r))"
    by (auto simp: list_all_iff dest: set_takeWhileD)
next
  assume a: "s = d @ r \<and> d \<noteq> [] \<and> list_all isDigit d \<and> (r = [] \<or> \<not> isDigit (hd r))"
  then have "takeWhile isDigit s = d \<and> dropWhile isDigit s = r"
    by (cases r) (auto simp: list_all_iff takeWhile_append2 dropWhile_append2)
  with a show "digits1 s = Some (d, r)"
    by (auto simp: digits1_def Let_def)
qed


lemma denot_digits: "denot (Plus dg) = digitRuns"
proof (rule set_eqI)
  fix w
  have "inClass Digit = isDigit" by (rule ext) simp
  then show "w \<in> denot (Plus dg) \<longleftrightarrow> w \<in> digitRuns"
    unfolding dg_def denot_plus_class digitRuns_def by simp
qed

lemma in_denot_Lits: "w \<in> denot (Lits s) \<longleftrightarrow> w = s"
  by (simp add: denot_Lits)

lemma in_denot_Seqs_Cons:
  "w \<in> denot (Seqs (r # rs)) \<longleftrightarrow> (\<exists>u v. w = u @ v \<and> u \<in> denot r \<and> v \<in> denot (Seqs rs))"
  unfolding denot_Seqs_Cons by blast

lemma in_denot_Seqs_Nil: "w \<in> denot (Seqs []) \<longleftrightarrow> w = []"
  by (simp add: denot_Seqs_Nil)

lemma in_denot_count:
  "w \<in> denot (Opt (Seqs [Lits '','', Plus dg])) \<longleftrightarrow> w \<in> countParts"
proof -
  have "w \<in> denot (Seqs [Lits '','', Plus dg]) \<longleftrightarrow> (\<exists>d. w = CHR '','' # d \<and> d \<in> digitRuns)"
    by (simp only: in_denot_Seqs_Cons in_denot_Seqs_Nil in_denot_Lits denot_digits) simp
  then show ?thesis
    unfolding denot_Opt countParts_def by blast
qed

lemma denot_SeqsI:
  "u \<in> denot r \<Longrightarrow> v \<in> denot (Seqs rs) \<Longrightarrow> u @ v \<in> denot (Seqs (r # rs))"
  unfolding in_denot_Seqs_Cons by blast

lemma denot_hunkHeader:
  "u \<in> denot (body hunkHeader) \<longleftrightarrow>
     (\<exists>d1 o1 d2 o2. u = ''@@ -'' @ d1 @ o1 @ '' +'' @ d2 @ o2 @ '' @@'' \<and>
        d1 \<in> digitRuns \<and> o1 \<in> countParts \<and> d2 \<in> digitRuns \<and> o2 \<in> countParts)"
proof
  have b: "body hunkHeader = Seqs [Lits ''@@ -'', Plus dg, Opt (Seqs [Lits '','', Plus dg]),
     Lits '' +'', Plus dg, Opt (Seqs [Lits '','', Plus dg]), Lits '' @@'']"
    by (simp add: hunkHeader_def)
  {
    assume "u \<in> denot (body hunkHeader)"
    then obtain u1 v1 where 1: "u = u1 @ v1" "u1 = ''@@ -''" and
      r1: "v1 \<in> denot (Seqs [Plus dg, Opt (Seqs [Lits '','', Plus dg]),
        Lits '' +'', Plus dg, Opt (Seqs [Lits '','', Plus dg]), Lits '' @@''])"
      unfolding b in_denot_Seqs_Cons[of _ "Lits ''@@ -''"] in_denot_Lits by blast
    from r1 obtain d1 v2 where 2: "v1 = d1 @ v2" "d1 \<in> digitRuns" and
      r2: "v2 \<in> denot (Seqs [Opt (Seqs [Lits '','', Plus dg]),
        Lits '' +'', Plus dg, Opt (Seqs [Lits '','', Plus dg]), Lits '' @@''])"
      unfolding in_denot_Seqs_Cons[of _ "Plus dg"] denot_digits by blast
    from r2 obtain o1 v3 where 3: "v2 = o1 @ v3" "o1 \<in> countParts" and
      r3: "v3 \<in> denot (Seqs [Lits '' +'', Plus dg, Opt (Seqs [Lits '','', Plus dg]),
        Lits '' @@''])"
      unfolding in_denot_Seqs_Cons[of _ "Opt (Seqs [Lits '','', Plus dg])"] in_denot_count
      by blast
    from r3 obtain u4 v4 where 4: "v3 = u4 @ v4" "u4 = '' +''" and
      r4: "v4 \<in> denot (Seqs [Plus dg, Opt (Seqs [Lits '','', Plus dg]), Lits '' @@''])"
      unfolding in_denot_Seqs_Cons[of _ "Lits '' +''"] in_denot_Lits by blast
    from r4 obtain d2 v5 where 5: "v4 = d2 @ v5" "d2 \<in> digitRuns" and
      r5: "v5 \<in> denot (Seqs [Opt (Seqs [Lits '','', Plus dg]), Lits '' @@''])"
      unfolding in_denot_Seqs_Cons[of _ "Plus dg"] denot_digits by blast
    from r5 obtain o2 v6 where 6: "v5 = o2 @ v6" "o2 \<in> countParts" and
      r6: "v6 \<in> denot (Seqs [Lits '' @@''])"
      unfolding in_denot_Seqs_Cons[of _ "Opt (Seqs [Lits '','', Plus dg])"] in_denot_count
      by blast
    from r6 have 7: "v6 = '' @@''"
      unfolding in_denot_Seqs_Cons in_denot_Seqs_Nil in_denot_Lits by simp
    have "u = ''@@ -'' @ d1 @ o1 @ '' +'' @ d2 @ o2 @ '' @@''"
      unfolding 1 2(1) 3(1) 4 5(1) 6(1) 7 by (rule refl)
    with 2(2) 3(2) 5(2) 6(2)
    show "\<exists>d1 o1 d2 o2. u = ''@@ -'' @ d1 @ o1 @ '' +'' @ d2 @ o2 @ '' @@'' \<and>
        d1 \<in> digitRuns \<and> o1 \<in> countParts \<and> d2 \<in> digitRuns \<and> o2 \<in> countParts"
      by blast
  }
  {
    assume "\<exists>d1 o1 d2 o2. u = ''@@ -'' @ d1 @ o1 @ '' +'' @ d2 @ o2 @ '' @@'' \<and>
        d1 \<in> digitRuns \<and> o1 \<in> countParts \<and> d2 \<in> digitRuns \<and> o2 \<in> countParts"
    then obtain d1 o1 d2 o2 where u: "u = ''@@ -'' @ d1 @ o1 @ '' +'' @ d2 @ o2 @ '' @@''"
      and m: "d1 \<in> digitRuns" "o1 \<in> countParts" "d2 \<in> digitRuns" "o2 \<in> countParts"
      by blast
    have e: "[] \<in> denot (Seqs [])" by (simp add: in_denot_Seqs_Nil)
    have l1: "''@@ -'' \<in> denot (Lits ''@@ -'')" and l2: "'' +'' \<in> denot (Lits '' +'')"
      and l3: "'' @@'' \<in> denot (Lits '' @@'')"
      by (simp_all only: in_denot_Lits)
    have c1: "o1 \<in> denot (Opt (Seqs [Lits '','', Plus dg]))"
      and c2: "o2 \<in> denot (Opt (Seqs [Lits '','', Plus dg]))"
      using m by (simp_all only: in_denot_count)
    have g1: "d1 \<in> denot (Plus dg)" and g2: "d2 \<in> denot (Plus dg)"
      using m by (simp_all only: denot_digits)
    have "''@@ -'' @ d1 @ o1 @ '' +'' @ d2 @ o2 @ '' @@'' @ [] \<in> denot (body hunkHeader)"
      unfolding b
      by (rule denot_SeqsI[OF l1 denot_SeqsI[OF g1 denot_SeqsI[OF c1 denot_SeqsI[OF l2
            denot_SeqsI[OF g2 denot_SeqsI[OF c2 denot_SeqsI[OF l3 e]]]]]]])
    then show "u \<in> denot (body hunkHeader)"
      unfolding u by (simp only: append_Nil2)
  }
qed

lemma optCount_decomp: "\<exists>p. s = p @ optCount s \<and> p \<in> countParts"
proof (cases s)
  case Nil
  then show ?thesis by (simp add: optCount_def countParts_def)
next
  case (Cons c t)
  show ?thesis
  proof (cases "c = CHR '','' \<and> digits1 t \<noteq> None")
    case True
    then obtain d r where d: "digits1 t = Some (d, r)" by auto
    then have "t = d @ r" "d \<in> digitRuns" by (auto simp: digits1_Some digitRuns_def)
    with True d Cons have "s = (CHR '','' # d) @ optCount s \<and> CHR '','' # d \<in> countParts"
      by (auto simp: optCount_def countParts_def)
    then show ?thesis by blast
  next
    case False
    with Cons have "optCount s = s" by (auto simp: optCount_def split: option.splits)
    then have "s = [] @ optCount s \<and> [] \<in> countParts" by (simp add: countParts_def)
    then show ?thesis by blast
  qed
qed

lemma not_digit: "\<not> isDigit (CHR '' '')" "\<not> isDigit (CHR '','')"
  by (simp_all add: isDigit_def code_def)

lemma optCount_parse:
  assumes "p \<in> countParts"
  shows "optCount (p @ CHR '' '' # r) = CHR '' '' # r"
proof (cases "p = []")
  case True
  then show ?thesis by (simp add: optCount_def)
next
  case False
  with assms obtain d where d: "p = CHR '','' # d" "d \<in> digitRuns"
    by (auto simp: countParts_def)
  then have "digits1 (d @ CHR '' '' # r) = Some (d, CHR '' '' # r)"
    by (simp add: digits1_Some digitRuns_def not_digit)
  with d show ?thesis by (simp add: optCount_def)
qed

lemma digits1_parse:
  assumes "d \<in> digitRuns" and "p \<in> countParts"
  shows "digits1 (d @ p @ CHR '' '' # r) = Some (d, p @ CHR '' '' # r)"
proof -
  have "\<not> isDigit (hd (p @ CHR '' '' # r))"
    using assms(2) by (auto simp: countParts_def not_digit)
  with assms(1) show ?thesis by (simp add: digits1_Some digitRuns_def)
qed

lemma hunkMatch_parse:
  assumes "d1 \<in> digitRuns" "o1 \<in> countParts" "d2 \<in> digitRuns" "o2 \<in> countParts"
  shows "hunkMatch (''@@ -'' @ d1 @ o1 @ '' +'' @ d2 @ o2 @ '' @@'' @ v) = Some (parseInt d2)"
proof -
  have 1: "stripPrefix ''@@ -'' (''@@ -'' @ d1 @ o1 @ '' +'' @ d2 @ o2 @ '' @@'' @ v) =
           Some (d1 @ o1 @ '' +'' @ d2 @ o2 @ '' @@'' @ v)"
    unfolding stripPrefix_Some by simp
  have 2: "digits1 (d1 @ o1 @ '' +'' @ d2 @ o2 @ '' @@'' @ v) =
           Some (d1, o1 @ '' +'' @ d2 @ o2 @ '' @@'' @ v)"
    using digits1_parse[OF assms(1,2), of "''+'' @ d2 @ o2 @ '' @@'' @ v"] by simp
  have 3: "optCount (o1 @ '' +'' @ d2 @ o2 @ '' @@'' @ v) = '' +'' @ d2 @ o2 @ '' @@'' @ v"
    using optCount_parse[OF assms(2), of "''+'' @ d2 @ o2 @ '' @@'' @ v"] by simp
  have 4: "stripPrefix '' +'' ('' +'' @ d2 @ o2 @ '' @@'' @ v) = Some (d2 @ o2 @ '' @@'' @ v)"
    unfolding stripPrefix_Some by simp
  have 5: "digits1 (d2 @ o2 @ '' @@'' @ v) = Some (d2, o2 @ '' @@'' @ v)"
    using digits1_parse[OF assms(3,4), of "''@@'' @ v"] by simp
  have 6: "optCount (o2 @ '' @@'' @ v) = '' @@'' @ v"
    using optCount_parse[OF assms(4), of "''@@'' @ v"] by simp
  have 7: "startsWith '' @@'' ('' @@'' @ v)"
    unfolding startsWith_iff by blast
  show ?thesis
    unfolding hunkMatch_def 1 option.case 2 prod.case 3 4 5 6 using 7 by simp
qed

lemma hunkMatch_decomp:
  assumes "hunkMatch l = Some n"
  shows "\<exists>d1 o1 d2 o2 v. l = ''@@ -'' @ d1 @ o1 @ '' +'' @ d2 @ o2 @ '' @@'' @ v \<and>
           d1 \<in> digitRuns \<and> o1 \<in> countParts \<and> d2 \<in> digitRuns \<and> o2 \<in> countParts"
proof -
  from assms obtain r1 d1 r2 r3 d2 r4 where
    1: "stripPrefix ''@@ -'' l = Some r1" and 2: "digits1 r1 = Some (d1, r2)" and
    3: "stripPrefix '' +'' (optCount r2) = Some r3" and 4: "digits1 r3 = Some (d2, r4)" and
    5: "startsWith '' @@'' (optCount r4)"
    by (auto simp: hunkMatch_def split: option.splits if_splits)
  from 5 obtain v where v: "optCount r4 = '' @@'' @ v" unfolding startsWith_iff by blast
  obtain o1 where o1: "r2 = o1 @ optCount r2" "o1 \<in> countParts" using optCount_decomp by blast
  obtain o2 where o2: "r4 = o2 @ optCount r4" "o2 \<in> countParts" using optCount_decomp by blast
  from 1 have a: "l = ''@@ -'' @ r1" unfolding stripPrefix_Some .
  from 2 have b: "r1 = d1 @ r2" "d1 \<in> digitRuns" by (auto simp: digits1_Some digitRuns_def)
  from 3 have c: "optCount r2 = '' +'' @ r3" unfolding stripPrefix_Some .
  from 4 have d: "r3 = d2 @ r4" "d2 \<in> digitRuns" by (auto simp: digits1_Some digitRuns_def)
  have "l = ''@@ -'' @ d1 @ o1 @ '' +'' @ d2 @ o2 @ '' @@'' @ v"
    using a b(1) o1(1) c d(1) o2(1) v by metis
  with b(2) o1(2) d(2) o2(2) show ?thesis by blast
qed

lemma hunkMatch_regex: "(hunkMatch l \<noteq> None) = regexTest hunkHeader l"
proof -
  have r: "regexTest hunkHeader l \<longleftrightarrow> (\<exists>u v. l = u @ v \<and> u \<in> denot (body hunkHeader))"
    by (simp add: regexTest_def matchAt_def hunkHeader_def matchesPrefix_denot)
  show ?thesis
  proof
    assume "hunkMatch l \<noteq> None"
    then obtain n where "hunkMatch l = Some n" by auto
    from hunkMatch_decomp[OF this] obtain d1 o1 d2 o2 v where
      l: "l = ''@@ -'' @ d1 @ o1 @ '' +'' @ d2 @ o2 @ '' @@'' @ v" and
      m: "d1 \<in> digitRuns" "o1 \<in> countParts" "d2 \<in> digitRuns" "o2 \<in> countParts"
      by blast
    from m have "''@@ -'' @ d1 @ o1 @ '' +'' @ d2 @ o2 @ '' @@'' \<in> denot (body hunkHeader)"
      unfolding denot_hunkHeader by blast
    moreover have "l = (''@@ -'' @ d1 @ o1 @ '' +'' @ d2 @ o2 @ '' @@'') @ v"
      using l by simp
    ultimately show "regexTest hunkHeader l" unfolding r by blast
  next
    assume "regexTest hunkHeader l"
    then obtain u v where "l = u @ v" "u \<in> denot (body hunkHeader)" unfolding r by blast
    then obtain d1 o1 d2 o2 where
      l: "l = (''@@ -'' @ d1 @ o1 @ '' +'' @ d2 @ o2 @ '' @@'') @ v" and
      m: "d1 \<in> digitRuns" "o1 \<in> countParts" "d2 \<in> digitRuns" "o2 \<in> countParts"
      unfolding denot_hunkHeader by blast
    from hunkMatch_parse[OF m, of v] l show "hunkMatch l \<noteq> None" by simp
  qed
qed

end
